theory Spec2Isabelle
  imports Main "HOL-Library.Word"
begin

section \<open>Video track source: attaching and detaching the frame observer\<close>

text \<open>
  Source: \<^verbatim>\<open>libs/mrwebrtc/src/media/video_track_source.cpp\<close>.

  A \<^verbatim>\<open>VideoTrackSource\<close> owns at most one \<^verbatim>\<open>VideoFrameObserver\<close> through the member
  \<^verbatim>\<open>std::unique_ptr<VideoFrameObserver> observer_\<close> and shares the native source
  \<^verbatim>\<open>source_\<close>. The model keeps
  \<^item> the observer objects in an explicit store (address to object), so that creating,
    owning and destroying an observer are visible;
  \<^item> the sink list of the native source, to which \<^verbatim>\<open>AddOrUpdateSink\<close> and
    \<^verbatim>\<open>RemoveSink\<close> apply;
  \<^item> a trace of what was done, in order: lock and unlock of \<^verbatim>\<open>observer_mutex_\<close>,
    the calls into the native source, and what frame delivery invokes.
  A member name ending in an underscore is not a name in HOL: the field \<^verbatim>\<open>observer_\<close>
  is written \<open>observer\<close> here.
\<close>

subsection \<open>Data\<close>

text \<open>
  \<^verbatim>\<open>I420AFrameReadyCallback\<close> is a (function, context) pair that converts to
  \<^verbatim>\<open>false\<close> when its function is null. \<open>None\<close> is the null callback, \<open>Some c\<close> the
  callback with identity \<open>c\<close>.
\<close>

type_synonym I420AFrameReadyCallback = "nat option"

text \<open>
  Modelled from the spec: the class \<^verbatim>\<open>VideoFrameObserver\<close> (declared in a header that
  is not among the sources). The spec's data model says that the frame callback is
  "stored inside Observer" and that frame delivery invokes "the stored callback". A
  freshly constructed observer holds the null callback.
\<close>

record VideoFrameObserver =
  callback :: I420AFrameReadyCallback

text \<open>
  \<^verbatim>\<open>rtc::VideoSinkWants\<close>: only the field that \<^verbatim>\<open>SetCallback\<close> writes is kept.
  \<^verbatim>\<open>sink_settings{}\<close> value-initialises it, which leaves \<^verbatim>\<open>rotation_applied\<close> false.
\<close>

record VideoSinkWants =
  rotation_applied :: bool

definition VideoSinkWants_init :: VideoSinkWants where
  "VideoSinkWants_init = \<lparr>rotation_applied = False\<rparr>"

text \<open>
  A sink registered with the native source is either a frame observer of this track
  source (by the address of the object) or some other sink: the native source is
  reference counted and shared, so other components may have sinks of their own.
\<close>

datatype sink_ptr = FrameObserver nat | OtherSink nat

datatype event =
    Lock
  | Unlock
  | NewObserver nat
  | AddOrUpdateSinkCall nat VideoSinkWants
  | RemoveSinkCall nat
  | ObserverSetCallback nat I420AFrameReadyCallback
  | DeleteObserver nat
  | InvalidDereference
  | OnFrame nat nat
  | FrameCallback nat nat
  | FrameToDestroyedObserver nat nat

record system =
  observer :: "nat option"
  sinks :: "(sink_ptr \<times> VideoSinkWants) list"
  store :: "nat \<rightharpoonup> VideoFrameObserver"
  next_addr :: nat
  trace :: "event list"

definition emit :: "event list \<Rightarrow> system \<Rightarrow> system" where
  "emit es s = s\<lparr>trace := trace s @ es\<rparr>"

subsection \<open>The native source\<close>

text \<open>
  The native source (\<^verbatim>\<open>webrtc::VideoTrackSourceInterface\<close>) is an external collaborator.
  Its sink list behaves as the interface documents: \<^verbatim>\<open>AddOrUpdateSink\<close> updates the
  wants of a sink that is already registered and appends a new one otherwise,
  \<^verbatim>\<open>RemoveSink\<close> drops the sink, and a frame is handed to the sinks registered at that
  moment, in order.
\<close>

fun add_or_update ::
  "sink_ptr \<Rightarrow> VideoSinkWants \<Rightarrow> (sink_ptr \<times> VideoSinkWants) list \<Rightarrow> (sink_ptr \<times> VideoSinkWants) list"
where
  "add_or_update p w [] = [(p, w)]"
| "add_or_update p w ((q, v) # ss) =
     (if q = p then (q, w) # ss else (q, v) # add_or_update p w ss)"

definition remove_sink ::
  "sink_ptr \<Rightarrow> (sink_ptr \<times> VideoSinkWants) list \<Rightarrow> (sink_ptr \<times> VideoSinkWants) list"
where
  "remove_sink p ss = filter (\<lambda>e. fst e \<noteq> p) ss"

text \<open>\<^verbatim>\<open>source_->AddOrUpdateSink(observer_.get(), sink_settings)\<close>\<close>

definition AddOrUpdateSink :: "VideoSinkWants \<Rightarrow> system \<Rightarrow> system" where
  "AddOrUpdateSink sink_settings s =
     (case observer s of
        None \<Rightarrow> emit [InvalidDereference] s
      | Some a \<Rightarrow>
          emit [AddOrUpdateSinkCall a sink_settings]
            (s\<lparr>sinks := add_or_update (FrameObserver a) sink_settings (sinks s)\<rparr>))"

text \<open>\<^verbatim>\<open>source_->RemoveSink(observer_.get())\<close>\<close>

definition RemoveSink :: "system \<Rightarrow> system" where
  "RemoveSink s =
     (case observer s of
        None \<Rightarrow> emit [InvalidDereference] s
      | Some a \<Rightarrow>
          emit [RemoveSinkCall a] (s\<lparr>sinks := remove_sink (FrameObserver a) (sinks s)\<rparr>))"

text \<open>
  Modelled from the spec: \<^verbatim>\<open>VideoFrameObserver::OnFrame\<close> (not among the sources), which
  is what a sink of this track source does with a frame \<open>f\<close>: it converts the frame and
  invokes the stored callback; with the null callback stored it invokes nothing. A frame
  handed to an address whose observer has been destroyed is recorded as such. What
  other sinks do with a frame is not recorded.
\<close>

fun sink_events :: "(nat \<rightharpoonup> VideoFrameObserver) \<Rightarrow> nat \<Rightarrow> sink_ptr \<Rightarrow> event list" where
  "sink_events h f (OtherSink q) = []"
| "sink_events h f (FrameObserver a) =
     (case h a of
        None \<Rightarrow> [FrameToDestroyedObserver a f]
      | Some ob \<Rightarrow>
          (case callback ob of
             None \<Rightarrow> [OnFrame a f]
           | Some c \<Rightarrow> [OnFrame a f, FrameCallback c f]))"

definition frame_events :: "system \<Rightarrow> nat \<Rightarrow> event list" where
  "frame_events s f = concat (map (sink_events (store s) f) (map fst (sinks s)))"

definition deliver_frame :: "nat \<Rightarrow> system \<Rightarrow> system" where
  "deliver_frame f s = emit (frame_events s f) s"

subsection \<open>The observer pointer\<close>

text \<open>\<^verbatim>\<open>observer_.reset()\<close>: destroys the owned observer, if any, and leaves the pointer null.\<close>

definition observer_reset :: "system \<Rightarrow> system" where
  "observer_reset s =
     (case observer s of
        None \<Rightarrow> s
      | Some a \<Rightarrow> emit [DeleteObserver a] (s\<lparr>observer := None, store := (store s)(a := None)\<rparr>))"

text \<open>
  \<^verbatim>\<open>observer_ = std::make_unique<VideoFrameObserver>()\<close>: a new object at a fresh address;
  the assignment destroys what the pointer owned before.
\<close>

definition observer_make_unique :: "system \<Rightarrow> system" where
  "observer_make_unique s =
     (let s1 = observer_reset s; a = next_addr s1
      in emit [NewObserver a]
           (s1\<lparr>observer := Some a,
               store := (store s1)(a \<mapsto> \<lparr>callback = None\<rparr>),
               next_addr := Suc a\<rparr>))"

text \<open>
  Modelled from the spec: \<^verbatim>\<open>VideoFrameObserver::SetCallback\<close> (not among the sources)
  stores the callback in the observer. This is the statement
  \<^verbatim>\<open>observer_->SetCallback(callback)\<close>; using a pointer that is null or whose object is
  gone is recorded as an invalid dereference.
\<close>

definition observer_SetCallback :: "I420AFrameReadyCallback \<Rightarrow> system \<Rightarrow> system" where
  "observer_SetCallback cb s =
     (case observer s of
        None \<Rightarrow> emit [InvalidDereference] s
      | Some a \<Rightarrow>
          (case store s a of
             None \<Rightarrow> emit [InvalidDereference] s
           | Some ob \<Rightarrow>
               emit [ObserverSetCallback a cb] (s\<lparr>store := (store s)(a \<mapsto> ob\<lparr>callback := cb\<rparr>)\<rparr>)))"

subsection \<open>\<^verbatim>\<open>VideoTrackSource::SetCallback\<close> and the destructor\<close>

text \<open>
  \<^verbatim>\<open>std::lock_guard<std::mutex> lock(observer_mutex_)\<close> is the first statement of
  \<^verbatim>\<open>SetCallback\<close>: the mutex is taken there and released when the function returns.
\<close>

definition SetCallback :: "I420AFrameReadyCallback \<Rightarrow> system \<Rightarrow> system" where
  "SetCallback cb s0 =
     (let s1 = emit [Lock] s0;
          s2 =
            (if cb \<noteq> None then
               observer_SetCallback cb
                 (if observer s1 = None then
                    AddOrUpdateSink (VideoSinkWants_init\<lparr>rotation_applied := True\<rparr>)
                      (observer_make_unique s1)
                  else s1)
             else if observer s1 \<noteq> None then observer_reset (RemoveSink s1)
             else s1)
      in emit [Unlock] s2)"

text \<open>
  \<^verbatim>\<open>~VideoTrackSource()\<close>: the body removes the sink when an observer is attached; the
  members are destroyed after the body, and destroying the \<^verbatim>\<open>unique_ptr\<close> destroys
  the observer it owns.
\<close>

definition VideoTrackSource_destroy :: "system \<Rightarrow> system" where
  "VideoTrackSource_destroy s =
     observer_reset (if observer s \<noteq> None then RemoveSink s else s)"

text \<open>A track source right after construction, on a native source without sinks.\<close>

definition system_init :: system where
  "system_init = \<lparr>observer = None, sinks = [], store = Map.empty, next_addr = 0, trace = []\<rparr>"

subsection \<open>Observing a run\<close>

text \<open>The events that happened between state \<open>s\<close> and the later state \<open>s'\<close>.\<close>

definition events_since :: "system \<Rightarrow> system \<Rightarrow> event list" where
  "events_since s s' = drop (length (trace s)) (trace s')"

text \<open>The native engine delivers the frames \<open>fs\<close>, one after the other.\<close>

definition deliver_frames :: "nat list \<Rightarrow> system \<Rightarrow> system" where
  "deliver_frames fs s = fold deliver_frame fs s"

fun is_AddOrUpdateSinkCall :: "event \<Rightarrow> bool" where
  "is_AddOrUpdateSinkCall (AddOrUpdateSinkCall a w) = True"
| "is_AddOrUpdateSinkCall e = False"

fun is_NewObserver :: "event \<Rightarrow> bool" where
  "is_NewObserver (NewObserver a) = True"
| "is_NewObserver e = False"

text \<open>
  The spec's sentence about the mutex, on a trace: no call of \<^verbatim>\<open>AddOrUpdateSink\<close> or
  \<^verbatim>\<open>RemoveSink\<close> happens while the mutex is held. \<open>held\<close> says whether the mutex is held
  at the beginning of the trace.
\<close>

fun native_calls_unlocked :: "bool \<Rightarrow> event list \<Rightarrow> bool" where
  "native_calls_unlocked held [] = True"
| "native_calls_unlocked held (Lock # es) = native_calls_unlocked True es"
| "native_calls_unlocked held (Unlock # es) = native_calls_unlocked False es"
| "native_calls_unlocked held (AddOrUpdateSinkCall a w # es) =
     (\<not> held \<and> native_calls_unlocked held es)"
| "native_calls_unlocked held (RemoveSinkCall a # es) =
     (\<not> held \<and> native_calls_unlocked held es)"
| "native_calls_unlocked held (e # es) = native_calls_unlocked held es"

text \<open>
  The invariant of a track source and its native source: the observer objects that
  exist are exactly what the track source owns, and the observers among the sinks of the
  native source are exactly that too.
\<close>

fun observer_sinks :: "sink_ptr list \<Rightarrow> nat list" where
  "observer_sinks [] = []"
| "observer_sinks (FrameObserver a # ps) = a # observer_sinks ps"
| "observer_sinks (OtherSink q # ps) = observer_sinks ps"

definition observer_invariant :: "system \<Rightarrow> bool" where
  "observer_invariant s \<longleftrightarrow>
     dom (store s) = set_option (observer s) \<and>
     set (observer_sinks (map fst (sinks s))) = set_option (observer s)"

text \<open>
  What the code does instead: every call of \<^verbatim>\<open>AddOrUpdateSink\<close> or \<^verbatim>\<open>RemoveSink\<close> in the
  trace happens while the mutex is held.
\<close>

fun native_calls_locked :: "bool \<Rightarrow> event list \<Rightarrow> bool" where
  "native_calls_locked held [] = True"
| "native_calls_locked held (Lock # es) = native_calls_locked True es"
| "native_calls_locked held (Unlock # es) = native_calls_locked False es"
| "native_calls_locked held (AddOrUpdateSinkCall a w # es) =
     (held \<and> native_calls_locked held es)"
| "native_calls_locked held (RemoveSinkCall a # es) =
     (held \<and> native_calls_locked held es)"
| "native_calls_locked held (e # es) = native_calls_locked held es"

text \<open>The events of frame delivery to an observer of this track source.\<close>

fun is_frame_event :: "event \<Rightarrow> bool" where
  "is_frame_event (OnFrame a f) = True"
| "is_frame_event (FrameCallback c f) = True"
| "is_frame_event (FrameToDestroyedObserver a f) = True"
| "is_frame_event e = False"

subsection \<open>\<^verbatim>\<open>SetCallback\<close> statement by statement, with frames arriving in between\<close>

text \<open>
  Frames are delivered on a thread of the native engine, while \<^verbatim>\<open>SetCallback\<close> runs on
  a thread of the caller. To speak about a frame that arrives while \<^verbatim>\<open>SetCallback\<close> is
  running, the function is also given statement by statement: a program counter says
  which statement of the source comes next.

  \<^item> \<open>Entry cb\<close>: before \<^verbatim>\<open>std::lock_guard<std::mutex> lock(observer_mutex_)\<close>;
  \<^item> \<open>Test cb\<close>: the mutex is held, before \<^verbatim>\<open>if (callback)\<close> and the test of
    \<^verbatim>\<open>observer_\<close> in the branch taken;
  \<^item> \<open>Make cb\<close>: before \<^verbatim>\<open>observer_ = std::make_unique<VideoFrameObserver>()\<close>;
  \<^item> \<open>Add cb\<close>: before \<^verbatim>\<open>source_->AddOrUpdateSink(observer_.get(), sink_settings)\<close>;
  \<^item> \<open>Store cb\<close>: before \<^verbatim>\<open>observer_->SetCallback(callback)\<close>;
  \<^item> \<open>Remove\<close>: before \<^verbatim>\<open>source_->RemoveSink(observer_.get())\<close>;
  \<^item> \<open>Reset\<close>: before \<^verbatim>\<open>observer_.reset()\<close>;
  \<^item> \<open>Exit\<close>: at the closing brace, where the lock guard releases the mutex;
  \<^item> \<open>Returned\<close>: the call has returned (or none was made yet).
\<close>

datatype pc =
    Entry I420AFrameReadyCallback
  | Test I420AFrameReadyCallback
  | Make I420AFrameReadyCallback
  | Add I420AFrameReadyCallback
  | Store I420AFrameReadyCallback
  | Remove
  | Reset
  | Exit
  | Returned

fun caller_step :: "pc \<times> system \<Rightarrow> pc \<times> system" where
  "caller_step (Entry cb, s) = (Test cb, emit [Lock] s)"
| "caller_step (Test cb, s) =
     (if cb \<noteq> None then (if observer s = None then (Make cb, s) else (Store cb, s))
      else if observer s \<noteq> None then (Remove, s)
      else (Exit, s))"
| "caller_step (Make cb, s) = (Add cb, observer_make_unique s)"
| "caller_step (Add cb, s) =
     (Store cb, AddOrUpdateSink (VideoSinkWants_init\<lparr>rotation_applied := True\<rparr>) s)"
| "caller_step (Store cb, s) = (Exit, observer_SetCallback cb s)"
| "caller_step (Remove, s) = (Reset, RemoveSink s)"
| "caller_step (Reset, s) = (Exit, observer_reset s)"
| "caller_step (Exit, s) = (Returned, emit [Unlock] s)"
| "caller_step (Returned, s) = (Returned, s)"

text \<open>
  One step of the whole system is one of:
  \<^item> \<open>CallerStep\<close>: the caller's thread executes its next statement;
  \<^item> \<open>NativeFrame f\<close>: the native engine delivers frame \<open>f\<close> to the sinks registered at
    that moment. The native source serialises the dispatch of a frame with
    \<^verbatim>\<open>AddOrUpdateSink\<close> and \<^verbatim>\<open>RemoveSink\<close>, so a delivery is a single step. Frame
    delivery does not take \<^verbatim>\<open>observer_mutex_\<close> (the observer is constructed without
    any reference to the track source), so it can happen at every program counter;
  \<^item> \<open>Call cb\<close>: the caller, having returned from the previous call, calls
    \<^verbatim>\<open>SetCallback(cb)\<close>.
\<close>

datatype action = CallerStep | NativeFrame nat | Call I420AFrameReadyCallback

fun action_step :: "action \<Rightarrow> pc \<times> system \<Rightarrow> pc \<times> system" where
  "action_step CallerStep c = caller_step c"
| "action_step (NativeFrame f) (p, s) = (p, deliver_frame f s)"
| "action_step (Call cb) (p, s) = (if p = Returned then (Entry cb, s) else (p, s))"

definition run :: "action list \<Rightarrow> pc \<times> system \<Rightarrow> pc \<times> system" where
  "run sched c = fold action_step sched c"

text \<open>A call that registers a callback that is not null; a call of any kind.\<close>

fun is_registration :: "action \<Rightarrow> bool" where
  "is_registration (Call (Some c)) = True"
| "is_registration a = False"

fun is_call :: "action \<Rightarrow> bool" where
  "is_call (Call cb) = True"
| "is_call a = False"

text \<open>What holds at each program counter of a detaching call.\<close>

fun detaching :: "pc \<times> system \<Rightarrow> bool" where
  "detaching (Entry cb, s) = (cb = None \<and> observer_invariant s)"
| "detaching (Test cb, s) = (cb = None \<and> observer_invariant s)"
| "detaching (Remove, s) = (observer_invariant s \<and> observer s \<noteq> None)"
| "detaching (Reset, s) =
     (observer s \<noteq> None \<and> dom (store s) = set_option (observer s) \<and>
      observer_sinks (map fst (sinks s)) = [])"
| "detaching (Exit, s) = (observer_invariant s \<and> observer s = None)"
| "detaching (Returned, s) = (observer_invariant s \<and> observer s = None)"
| "detaching (p, s) = False"

text \<open>Once detached, nothing that is not a registration produces a frame event.\<close>

fun detached :: "pc \<times> system \<Rightarrow> bool" where
  "detached (Entry cb, s) = (cb = None \<and> observer_invariant s \<and> observer s = None)"
| "detached (Test cb, s) = (cb = None \<and> observer_invariant s \<and> observer s = None)"
| "detached (Exit, s) = (observer_invariant s \<and> observer s = None)"
| "detached (Returned, s) = (observer_invariant s \<and> observer s = None)"
| "detached (p, s) = False"

text \<open>An upper bound on the statements a call still has to execute.\<close>

fun steps_left :: "pc \<Rightarrow> nat" where
  "steps_left (Entry cb) = 6"
| "steps_left (Test cb) = 5"
| "steps_left (Make cb) = 4"
| "steps_left (Add cb) = 3"
| "steps_left (Store cb) = 2"
| "steps_left Remove = 3"
| "steps_left Reset = 2"
| "steps_left Exit = 1"
| "steps_left Returned = 0"

section \<open>Video source adapter: the registered observer\<close>

text \<open>
  Source: \<^verbatim>\<open>VideoSourceAdapter::RegisterObserver\<close> and \<^verbatim>\<open>UnregisterObserver\<close> in
  \<^verbatim>\<open>video_track_source.cpp\<close>. The two functions touch one member, the pointer
  \<^verbatim>\<open>webrtc::ObserverInterface* observer_\<close> (written \<open>adapter_observer\<close>; \<open>None\<close> is the null
  pointer). The other members of the class are whatever extends the record.
\<close>

record VideoSourceAdapter =
  adapter_observer :: "nat option"

definition RegisterObserver ::
  "nat option \<Rightarrow> 'a VideoSourceAdapter_scheme \<Rightarrow> 'a VideoSourceAdapter_scheme"
where
  "RegisterObserver obs a = a\<lparr>adapter_observer := obs\<rparr>"

text \<open>
  \<^verbatim>\<open>RTC_DCHECK_EQ(observer_, observer)\<close> stops the process when the two differ, in a build
  that has the checks on, and is compiled out otherwise. Whether the checks are on is
  decided by the build (a macro that is not among the sources): it is a parameter.
\<close>

datatype fatal = DCheckFailed

definition UnregisterObserver ::
  "bool \<Rightarrow> nat option \<Rightarrow> 'a VideoSourceAdapter_scheme \<Rightarrow> fatal + 'a VideoSourceAdapter_scheme"
where
  "UnregisterObserver dcheck_is_on obs a =
     (if dcheck_is_on \<and> adapter_observer a \<noteq> obs then Inl DCheckFailed
      else Inr (a\<lparr>adapter_observer := None\<rparr>))"

section \<open>Data channel interop\<close>

text \<open>
  Source: \<^verbatim>\<open>include/data_channel_interop.h\<close>. The header declares the functions and the
  callback types and defines the struct \<^verbatim>\<open>mrsDataChannelCallbacks\<close>; the functions
  themselves are implemented in a file that is not among the sources, so their bodies
  below follow the spec. Pointers are numbers, \<open>nullptr\<close> is zero; \<^verbatim>\<open>uint64_t\<close> is
  \<open>64 word\<close> and \<^verbatim>\<open>int32_t\<close> is \<open>32 word\<close>.
\<close>

type_synonym mrsDataChannelHandle = nat

definition nullptr :: nat where
  "nullptr = 0"

text \<open>The struct of the header; every member is initialised to null by \<^verbatim>\<open>{}\<close>.\<close>

record mrsDataChannelCallbacks =
  message_callback :: nat
  message_user_data :: nat
  buffering_callback :: nat
  buffering_user_data :: nat
  state_callback :: nat
  state_user_data :: nat

definition mrsDataChannelCallbacks_init :: mrsDataChannelCallbacks where
  "mrsDataChannelCallbacks_init =
     \<lparr>message_callback = nullptr, message_user_data = nullptr,
      buffering_callback = nullptr, buffering_user_data = nullptr,
      state_callback = nullptr, state_user_data = nullptr\<rparr>"

text \<open>
  Modelled from the spec: the result codes (the enumeration \<^verbatim>\<open>mrsResult\<close> is declared in
  \<^verbatim>\<open>interop_api.h\<close>, not among the sources). The spec lists "success, invalid-argument,
  invalid-handle/not-found, not-open, buffer-full/channel-closing".
\<close>

datatype mrsResult = Success | InvalidArgument | InvalidHandle | NotOpen | BufferFull

text \<open>
  Modelled from the spec: the data channel object behind a handle. It carries the
  user-data slot ("a single untyped value slot per handle", empty until set), the
  callback set ("stored on the channel object"), whether the channel is in a sendable
  state, the occupancy and the capacity of the outbound buffer, and what has been
  forwarded to the native channel (data pointer and size of each payload).
\<close>

record DataChannel =
  user_data :: nat
  callbacks :: mrsDataChannelCallbacks
  sendable :: bool
  current_bytes :: nat
  limit_bytes :: nat
  native_sends :: "(nat \<times> 64 word) list"

definition DataChannel_new :: "nat \<Rightarrow> DataChannel" where
  "DataChannel_new lim =
     \<lparr>user_data = nullptr, callbacks = mrsDataChannelCallbacks_init, sendable = True,
      current_bytes = 0, limit_bytes = lim, native_sends = []\<rparr>"

text \<open>
  Modelled from the spec: the registry that resolves a handle "to a live native object
  or fail[s] if stale".
\<close>

type_synonym registry = "mrsDataChannelHandle \<rightharpoonup> DataChannel"

text \<open>
  Modelled from the spec: \<^verbatim>\<open>mrsDataChannelSetUserData\<close> "stores value verbatim, no
  validation beyond handle liveness" and "overwrites prior value with no cleanup".
\<close>

definition mrsDataChannelSetUserData ::
  "mrsDataChannelHandle \<Rightarrow> nat \<Rightarrow> registry \<Rightarrow> registry"
where
  "mrsDataChannelSetUserData handle v reg =
     (case reg handle of
        None \<Rightarrow> reg
      | Some c \<Rightarrow> reg(handle \<mapsto> c\<lparr>user_data := v\<rparr>))"

text \<open>
  Modelled from the spec: \<^verbatim>\<open>mrsDataChannelGetUserData\<close> "returns the last stored value,
  or a sentinel empty value if never set"; on a handle that does not resolve it
  "returns empty/sentinel". The header names the sentinel: \<^verbatim>\<open>nullptr\<close>.
\<close>

definition mrsDataChannelGetUserData :: "mrsDataChannelHandle \<Rightarrow> registry \<Rightarrow> nat" where
  "mrsDataChannelGetUserData handle reg =
     (case reg handle of
        None \<Rightarrow> nullptr
      | Some c \<Rightarrow> user_data c)"

text \<open>
  Modelled from the spec: \<^verbatim>\<open>mrsDataChannelRegisterCallbacks\<close> "replaces the channel's
  stored message/buffering/state callback pairs in one call". The argument is the struct
  that the pointer \<^verbatim>\<open>callbacks\<close> points to.
\<close>

definition mrsDataChannelRegisterCallbacks ::
  "mrsDataChannelHandle \<Rightarrow> mrsDataChannelCallbacks \<Rightarrow> registry \<Rightarrow> registry"
where
  "mrsDataChannelRegisterCallbacks handle cbs reg =
     (case reg handle of
        None \<Rightarrow> reg
      | Some c \<Rightarrow> reg(handle \<mapsto> c\<lparr>callbacks := cbs\<rparr>))"

text \<open>
  Modelled from the spec: \<^verbatim>\<open>mrsDataChannelSendMessage\<close> "fails with InvalidArgument if
  size is zero or data is null while size > 0" (argument errors are "rejected before
  touching native state"), reports a handle that does not resolve, "fails with NotOpen
  if the channel is not in a sendable state", "fails with BufferFull if the send would
  exceed capacity", in which case the native channel closes, and otherwise succeeds
  "once the native layer has accepted the bytes into its outbound buffer".
\<close>

definition mrsDataChannelSendMessage ::
  "mrsDataChannelHandle \<Rightarrow> nat \<Rightarrow> 64 word \<Rightarrow> registry \<Rightarrow> mrsResult \<times> registry"
where
  "mrsDataChannelSendMessage data_channel_handle data sz reg =
     (if sz = 0 \<or> (data = nullptr \<and> 0 < sz) then (InvalidArgument, reg)
      else
        (case reg data_channel_handle of
           None \<Rightarrow> (InvalidHandle, reg)
         | Some c \<Rightarrow>
             if \<not> sendable c then (NotOpen, reg)
             else if limit_bytes c < current_bytes c + unat sz then
               (BufferFull, reg(data_channel_handle \<mapsto> c\<lparr>sendable := False\<rparr>))
             else
               (Success,
                reg(data_channel_handle \<mapsto>
                  c\<lparr>current_bytes := current_bytes c + unat sz,
                    native_sends := native_sends c @ [(data, sz)]\<rparr>))))"

text \<open>
  Modelled from the spec: what the native channel reports, and the dispatch to the
  registered callbacks. "A null function pointer disables that callback"; otherwise the
  callback is invoked with its context and the values of the event, as the callback
  types of the header say.
\<close>

datatype channel_event =
    MessageReceived nat "64 word"
  | BufferingChanged "64 word" "64 word" "64 word"
  | StateChanged "32 word" "32 word"

datatype invocation =
    MessageInvoked nat nat nat "64 word"
  | BufferingInvoked nat nat "64 word" "64 word" "64 word"
  | StateInvoked nat nat "32 word" "32 word"

fun dispatch :: "mrsDataChannelCallbacks \<Rightarrow> channel_event \<Rightarrow> invocation list" where
  "dispatch cbs (MessageReceived d n) =
     (if message_callback cbs = nullptr then []
      else [MessageInvoked (message_callback cbs) (message_user_data cbs) d n])"
| "dispatch cbs (BufferingChanged previous current lim) =
     (if buffering_callback cbs = nullptr then []
      else [BufferingInvoked (buffering_callback cbs) (buffering_user_data cbs) previous current lim])"
| "dispatch cbs (StateChanged st ident) =
     (if state_callback cbs = nullptr then []
      else [StateInvoked (state_callback cbs) (state_user_data cbs) st ident])"

text \<open>
  A history of a set of data channels: calls of the interop functions by the caller and
  events reported by the native channels, in the order in which they happen. The
  invocations of callbacks are collected with the handle of the channel they are for.
\<close>

datatype api_call =
    SetUserData mrsDataChannelHandle nat
  | RegisterCallbacks mrsDataChannelHandle mrsDataChannelCallbacks
  | SendMessage mrsDataChannelHandle nat "64 word"
  | NativeEvent mrsDataChannelHandle channel_event

fun api_step ::
  "api_call \<Rightarrow> registry \<times> (mrsDataChannelHandle \<times> invocation) list \<Rightarrow>
   registry \<times> (mrsDataChannelHandle \<times> invocation) list"
where
  "api_step (SetUserData h v) (reg, invs) = (mrsDataChannelSetUserData h v reg, invs)"
| "api_step (RegisterCallbacks h cbs) (reg, invs) = (mrsDataChannelRegisterCallbacks h cbs reg, invs)"
| "api_step (SendMessage h d n) (reg, invs) = (snd (mrsDataChannelSendMessage h d n reg), invs)"
| "api_step (NativeEvent h ev) (reg, invs) =
     (case reg h of
        None \<Rightarrow> (reg, invs)
      | Some c \<Rightarrow> (reg, invs @ map (Pair h) (dispatch (callbacks c) ev)))"

definition api_run ::
  "api_call list \<Rightarrow> registry \<times> (mrsDataChannelHandle \<times> invocation) list \<Rightarrow>
   registry \<times> (mrsDataChannelHandle \<times> invocation) list"
where
  "api_run calls c = fold api_step calls c"

text \<open>The value passed to the most recent \<^verbatim>\<open>SetUserData\<close> for \<open>h\<close> in a history, if any.\<close>

fun last_user_data :: "mrsDataChannelHandle \<Rightarrow> api_call list \<Rightarrow> nat option" where
  "last_user_data h [] = None"
| "last_user_data h (SetUserData k v # calls) =
     (case last_user_data h calls of
        Some w \<Rightarrow> Some w
      | None \<Rightarrow> if k = h then Some v else None)"
| "last_user_data h (c # calls) = last_user_data h calls"

definition silent :: "mrsDataChannelCallbacks \<Rightarrow> bool" where
  "silent cbs \<longleftrightarrow>
     message_callback cbs = nullptr \<and> buffering_callback cbs = nullptr \<and>
     state_callback cbs = nullptr"

text \<open>A registration for \<open>h\<close> with at least one callback that is not null.\<close>

fun enables :: "mrsDataChannelHandle \<Rightarrow> api_call \<Rightarrow> bool" where
  "enables h (RegisterCallbacks k cbs) = (k = h \<and> \<not> silent cbs)"
| "enables h c = False"

section \<open>Lemmas about the video track source\<close>

subsection \<open>What each branch of \<^verbatim>\<open>SetCallback\<close> does\<close>

lemma events_since_emit [simp]: "events_since s (emit es s) = es"
  by (simp add: events_since_def emit_def)

lemma remove_sink_absent: "p \<notin> fst ` set (remove_sink p ss)"
  by (auto simp: remove_sink_def)

lemma SetCallback_null_with_observer:
  "observer s = Some a \<Longrightarrow>
   SetCallback None s =
     s\<lparr>observer := None,
       sinks := remove_sink (FrameObserver a) (sinks s),
       store := (store s)(a := None),
       trace := trace s @ [Lock, RemoveSinkCall a, DeleteObserver a, Unlock]\<rparr>"
  by (simp add: SetCallback_def emit_def RemoveSink_def observer_reset_def)

lemma SetCallback_null_without_observer:
  "observer s = None \<Longrightarrow> SetCallback None s = s\<lparr>trace := trace s @ [Lock, Unlock]\<rparr>"
  by (simp add: SetCallback_def emit_def)

lemma SetCallback_null_observer: "observer (SetCallback None s) = None"
  by (cases "observer s") (simp_all add: SetCallback_null_with_observer SetCallback_null_without_observer)

lemma SetCallback_some_without_observer:
  "observer s = None \<Longrightarrow>
   SetCallback (Some c) s =
     s\<lparr>observer := Some (next_addr s),
       sinks := add_or_update (FrameObserver (next_addr s)) \<lparr>rotation_applied = True\<rparr> (sinks s),
       store := (store s)(next_addr s \<mapsto> \<lparr>callback = Some c\<rparr>),
       next_addr := Suc (next_addr s),
       trace := trace s @
         [Lock, NewObserver (next_addr s),
          AddOrUpdateSinkCall (next_addr s) \<lparr>rotation_applied = True\<rparr>,
          ObserverSetCallback (next_addr s) (Some c), Unlock]\<rparr>"
  by (simp add: SetCallback_def emit_def observer_make_unique_def observer_reset_def
      AddOrUpdateSink_def observer_SetCallback_def VideoSinkWants_init_def Let_def)

lemma SetCallback_some_with_observer:
  "observer s = Some a \<Longrightarrow> store s a = Some ob \<Longrightarrow>
   SetCallback (Some c) s =
     s\<lparr>store := (store s)(a \<mapsto> ob\<lparr>callback := Some c\<rparr>),
       trace := trace s @ [Lock, ObserverSetCallback a (Some c), Unlock]\<rparr>"
  by (simp add: SetCallback_def emit_def observer_SetCallback_def)

lemma SetCallback_some_dangling:
  "observer s = Some a \<Longrightarrow> store s a = None \<Longrightarrow>
   SetCallback (Some c) s = s\<lparr>trace := trace s @ [Lock, InvalidDereference, Unlock]\<rparr>"
  by (simp add: SetCallback_def emit_def observer_SetCallback_def)

lemma destroy_attached:
  "observer s = Some a \<Longrightarrow>
   VideoTrackSource_destroy s =
     s\<lparr>observer := None,
       sinks := remove_sink (FrameObserver a) (sinks s),
       store := (store s)(a := None),
       trace := trace s @ [RemoveSinkCall a, DeleteObserver a]\<rparr>"
  by (simp add: VideoTrackSource_destroy_def RemoveSink_def observer_reset_def emit_def)

lemma destroy_detached: "observer s = None \<Longrightarrow> VideoTrackSource_destroy s = s"
  by (simp add: VideoTrackSource_destroy_def observer_reset_def)


subsection \<open>Sinks and frames\<close>

lemma observer_sinks_remove:
  "set (observer_sinks (map fst (remove_sink (FrameObserver a) ss))) =
   set (observer_sinks (map fst ss)) - {a}"
proof (induction ss)
  case Nil
  show ?case by (simp add: remove_sink_def)
next
  case (Cons x ss)
  obtain p w where x: "x = (p, w)" by (cases x)
  from Cons show ?case
    by (cases p) (auto simp: x remove_sink_def)
qed

lemma observer_sinks_add:
  "set (observer_sinks (map fst (add_or_update (FrameObserver a) w ss))) =
   insert a (set (observer_sinks (map fst ss)))"
proof (induction ss)
  case Nil
  show ?case by simp
next
  case (Cons x ss)
  obtain p v where x: "x = (p, v)" by (cases x)
  from Cons show ?case
    by (cases p) (auto simp: x)
qed

lemma sink_events_no_lock: "Lock \<notin> set (sink_events h f p) \<and> Unlock \<notin> set (sink_events h f p)"
  by (cases p) (simp_all split: option.splits)

lemma sink_events_other:
  "p \<noteq> FrameObserver a \<Longrightarrow> OnFrame a f' \<notin> set (sink_events h f p) \<and> FrameToDestroyedObserver a f' \<notin> set (sink_events h f p)"
  by (cases p) (auto split: option.splits)

lemma deliver_frame_fields [simp]:
  "observer (deliver_frame f s) = observer s"
  "sinks (deliver_frame f s) = sinks s"
  "store (deliver_frame f s) = store s"
  "next_addr (deliver_frame f s) = next_addr s"
  by (simp_all add: deliver_frame_def emit_def)

lemma frame_events_deliver [simp]: "frame_events (deliver_frame f s) g = frame_events s g"
  by (simp add: frame_events_def)

lemma deliver_frames_trace:
  "trace (deliver_frames fs s) = trace s @ concat (map (frame_events s) fs)"
proof (induction fs arbitrary: s)
  case Nil
  show ?case by (simp add: deliver_frames_def)
next
  case (Cons f fs)
  have "deliver_frames (f # fs) s = deliver_frames fs (deliver_frame f s)"
    by (simp add: deliver_frames_def)
  then show ?case
    using Cons [of "deliver_frame f s"] by (simp add: deliver_frame_def emit_def frame_events_def)
qed

lemma events_since_deliver_frames:
  "events_since s (deliver_frames fs s) = concat (map (frame_events s) fs)"
  by (simp add: events_since_def deliver_frames_trace)

lemma frame_events_absent:
  assumes "FrameObserver a \<notin> fst ` set (sinks s)"
  shows "OnFrame a f' \<notin> set (frame_events s f)
       \<and> FrameToDestroyedObserver a f' \<notin> set (frame_events s f)"
proof -
  have "\<And>p. p \<in> fst ` set (sinks s) \<Longrightarrow> p \<noteq> FrameObserver a"
    using assms by blast
  then have "\<And>p. p \<in> fst ` set (sinks s) \<Longrightarrow>
      OnFrame a f' \<notin> set (sink_events (store s) f p) \<and>
      FrameToDestroyedObserver a f' \<notin> set (sink_events (store s) f p)"
    by (rule sink_events_other)
  then show ?thesis
    by (simp add: frame_events_def)
qed

lemma deliver_frames_absent:
  assumes "FrameObserver a \<notin> fst ` set (sinks s)"
  shows "OnFrame a f' \<notin> set (events_since s (deliver_frames fs s))
       \<and> FrameToDestroyedObserver a f' \<notin> set (events_since s (deliver_frames fs s))"
  using frame_events_absent [OF assms] by (auto simp: events_since_deliver_frames)


subsection \<open>The invariant\<close>

lemma observer_invariant_init: "observer_invariant system_init"
  by (simp add: observer_invariant_def system_init_def)

lemma observer_invariant_SetCallback:
  assumes "observer_invariant s"
  shows "observer_invariant (SetCallback cb s)"
proof (cases cb)
  case None
  show ?thesis
  proof (cases "observer s")
    case None
    with \<open>cb = None\<close> assms show ?thesis
      by (simp add: SetCallback_null_without_observer observer_invariant_def)
  next
    case (Some a)
    with \<open>cb = None\<close> assms show ?thesis
      by (simp add: SetCallback_null_with_observer observer_invariant_def observer_sinks_remove)
  qed
next
  case (Some c)
  show ?thesis
  proof (cases "observer s")
    case None
    with \<open>cb = Some c\<close> assms show ?thesis
      by (simp add: SetCallback_some_without_observer observer_invariant_def observer_sinks_add)
  next
    case a: (Some a)
    with assms have "a \<in> dom (store s)"
      by (simp add: observer_invariant_def)
    then obtain ob where ob: "store s a = Some ob"
      by blast
    with a \<open>cb = Some c\<close> assms show ?thesis
      by (auto simp: SetCallback_some_with_observer observer_invariant_def)
  qed
qed

lemma observer_invariant_destroy:
  assumes "observer_invariant s"
  shows "observer_invariant (VideoTrackSource_destroy s)"
proof (cases "observer s")
  case None
  with assms show ?thesis by (simp add: destroy_detached)
next
  case (Some a)
  with assms show ?thesis
    by (simp add: destroy_attached observer_invariant_def observer_sinks_remove)
qed

lemma observer_invariant_at_most_one:
  "observer_invariant s \<Longrightarrow> card (dom (store s)) \<le> 1"
  by (cases "observer s") (simp_all add: observer_invariant_def)

text \<open>In a state that satisfies the invariant, \<^verbatim>\<open>SetCallback\<close> only uses valid pointers.\<close>

lemma SetCallback_valid_pointers:
  assumes "observer_invariant s"
  shows "InvalidDereference \<notin> set (events_since s (SetCallback cb s))"
proof (cases cb)
  case None
  then show ?thesis
    by (cases "observer s")
      (simp_all add: SetCallback_null_without_observer SetCallback_null_with_observer events_since_def)
next
  case (Some c)
  show ?thesis
  proof (cases "observer s")
    case None
    with Some show ?thesis
      by (simp add: SetCallback_some_without_observer events_since_def)
  next
    case a: (Some a)
    with assms have "a \<in> dom (store s)"
      by (simp add: observer_invariant_def)
    then obtain ob where "store s a = Some ob"
      by blast
    with a Some show ?thesis
      by (simp add: SetCallback_some_with_observer events_since_def)
  qed
qed

subsection \<open>Statement by statement\<close>

lemma run_append: "run (xs @ ys) c = run ys (run xs c)"
  by (simp add: run_def)

lemma run_Cons: "run (a # xs) c = run xs (action_step a c)"
  by (simp add: run_def)

lemma run_Nil: "run [] c = c"
  by (simp add: run_def)

lemma SetCallback_steps:
  "run (replicate 6 CallerStep) (Entry cb, s) = (Returned, SetCallback cb s)"
proof -
  have r: "replicate 6 CallerStep = [CallerStep, CallerStep, CallerStep, CallerStep, CallerStep, CallerStep]"
    by (simp add: numeral_eq_Suc)
  show ?thesis
    unfolding r by (simp add: run_def SetCallback_def Let_def)
qed

lemma emit_fields [simp]:
  "observer (emit es s) = observer s"
  "sinks (emit es s) = sinks s"
  "store (emit es s) = store s"
  "next_addr (emit es s) = next_addr s"
  "trace (emit es s) = trace s @ es"
  by (simp_all add: emit_def)

lemma observer_invariant_deliver [simp]:
  "observer_invariant (deliver_frame f s) = observer_invariant s"
  by (simp add: observer_invariant_def)

lemma observer_invariant_emit [simp]:
  "observer_invariant (emit es s) = observer_invariant s"
  by (simp add: observer_invariant_def emit_def)

lemma detaching_caller_step:
  assumes "detaching c"
  shows "detaching (caller_step c)"
proof -
  obtain p s where c: "c = (p, s)" by (cases c)
  show ?thesis
  proof (cases p)
    case Remove
    with assms c obtain a where a: "observer s = Some a" and inv: "observer_invariant s"
      by auto
    from inv a have "set (observer_sinks (map fst (remove_sink (FrameObserver a) (sinks s)))) = {}"
      by (simp add: observer_sinks_remove observer_invariant_def)
    with a inv show ?thesis
      by (simp add: c Remove RemoveSink_def emit_def observer_invariant_def)
  next
    case Reset
    with assms c obtain a where a: "observer s = Some a" and d: "dom (store s) = {a}"
      and k: "observer_sinks (map fst (sinks s)) = []"
      by auto
    then show ?thesis
      by (simp add: c Reset observer_reset_def emit_def observer_invariant_def)
  qed (use assms c in \<open>auto\<close>)
qed

lemma detaching_action_step:
  assumes "detaching c" and "\<not> is_registration a"
  shows "detaching (action_step a c)"
proof (cases a)
  case CallerStep
  with assms show ?thesis by (simp add: detaching_caller_step)
next
  case (NativeFrame f)
  obtain p s where c: "c = (p, s)" by (cases c)
  from assms(1) show ?thesis
    unfolding c NativeFrame by (cases p) simp_all
next
  case (Call cb)
  obtain p s where c: "c = (p, s)" by (cases c)
  from assms Call have "cb = None" by (cases cb) simp_all
  with assms(1) show ?thesis
    unfolding c Call by (cases "p = Returned") simp_all
qed

lemma detaching_run:
  assumes "detaching c" and "list_all (\<lambda>a. \<not> is_registration a) sched"
  shows "detaching (run sched c)"
  using assms
  by (induction sched arbitrary: c) (simp_all add: run_Nil run_Cons detaching_action_step)



lemma sink_events_no_observer:
  "observer_sinks ps = [] \<Longrightarrow> concat (map (sink_events h f) ps) = []"
  by (induction ps rule: observer_sinks.induct) simp_all

lemma frame_events_detached:
  assumes "observer_invariant s" and "observer s = None"
  shows "frame_events s f = []"
proof -
  from assms have "set (observer_sinks (map fst (sinks s))) = {}"
    by (simp add: observer_invariant_def)
  then have "observer_sinks (map fst (sinks s)) = []"
    by simp
  then show ?thesis
    unfolding frame_events_def by (rule sink_events_no_observer)
qed

lemma detached_caller_step:
  assumes "detached c"
  shows "detached (caller_step c) \<and>
    (\<exists>es. trace (snd (caller_step c)) = trace (snd c) @ es \<and> filter is_frame_event es = [])"
proof -
  obtain p s where c: "c = (p, s)" by (cases c)
  from assms show ?thesis
    unfolding c by (cases p) simp_all
qed

lemma detached_action_step:
  assumes "detached c" and "\<not> is_registration a"
  shows "detached (action_step a c) \<and>
    (\<exists>es. trace (snd (action_step a c)) = trace (snd c) @ es \<and> filter is_frame_event es = [])"
proof (cases a)
  case CallerStep
  with assms show ?thesis by (simp add: detached_caller_step)
next
  case (NativeFrame f)
  obtain p s where c: "c = (p, s)" by (cases c)
  from assms(1) show ?thesis
    unfolding c NativeFrame
    by (cases p) (simp_all add: deliver_frame_def frame_events_detached)
next
  case (Call cb)
  obtain p s where c: "c = (p, s)" by (cases c)
  from assms Call have "cb = None" by (cases cb) simp_all
  with assms(1) show ?thesis
    unfolding c Call by (cases "p = Returned") simp_all
qed

lemma detached_run:
  assumes "detached c" and "list_all (\<lambda>a. \<not> is_registration a) sched"
  shows "\<exists>es. trace (snd (run sched c)) = trace (snd c) @ es \<and> filter is_frame_event es = []"
  using assms
proof (induction sched arbitrary: c)
  case Nil
  show ?case by (simp add: run_Nil)
next
  case (Cons a sched)
  from Cons.prems have d: "detached (action_step a c)"
    and "\<exists>es. trace (snd (action_step a c)) = trace (snd c) @ es \<and> filter is_frame_event es = []"
    by (simp_all add: detached_action_step)
  then obtain es where es: "trace (snd (action_step a c)) = trace (snd c) @ es"
    "filter is_frame_event es = []"
    by blast
  from Cons.IH [OF d] Cons.prems obtain es' where
    es': "trace (snd (run sched (action_step a c))) = trace (snd (action_step a c)) @ es'"
    "filter is_frame_event es' = []"
    by auto
  from es es' show ?case
    by (simp add: run_Cons)
qed

lemma detaching_returned: "detaching (Returned, s) \<Longrightarrow> detached (Returned, s)"
  by simp

lemma caller_step_progress: "steps_left (fst (caller_step c)) \<le> steps_left (fst c) - 1"
proof -
  obtain p s where c: "c = (p, s)" by (cases c)
  show ?thesis
    unfolding c by (cases p) simp_all
qed

lemma action_step_progress:
  assumes "\<not> is_call a"
  shows "steps_left (fst (action_step a c)) \<le>
         steps_left (fst c) - length (filter (\<lambda>a. a = CallerStep) [a])"
proof (cases a)
  case CallerStep
  then show ?thesis using caller_step_progress [of c] by simp
next
  case (NativeFrame f)
  then show ?thesis by (cases c) simp
next
  case (Call cb)
  with assms show ?thesis by simp
qed

lemma run_progress:
  assumes "list_all (\<lambda>a. \<not> is_call a) sched"
  shows "steps_left (fst (run sched c)) \<le>
         steps_left (fst c) - length (filter (\<lambda>a. a = CallerStep) sched)"
  using assms
proof (induction sched arbitrary: c)
  case Nil
  show ?case by (simp add: run_Nil)
next
  case (Cons a sched)
  from Cons.prems have a: "\<not> is_call a" and rest: "list_all (\<lambda>a. \<not> is_call a) sched"
    by simp_all
  from Cons.IH [OF rest, of "action_step a c"] action_step_progress [OF a, of c]
  show ?case
    by (simp add: run_Cons split: if_splits)
qed

lemma steps_left_zero: "steps_left p = 0 \<Longrightarrow> p = Returned"
  by (cases p) simp_all

lemma SetCallback_returns:
  assumes "list_all (\<lambda>a. \<not> is_call a) sched"
    and "6 \<le> length (filter (\<lambda>a. a = CallerStep) sched)"
  shows "fst (run sched (Entry cb, s)) = Returned"
proof -
  from run_progress [OF assms(1), of "(Entry cb, s)"] assms(2)
  have "steps_left (fst (run sched (Entry cb, s))) = 0"
    by simp
  then show ?thesis
    by (rule steps_left_zero)
qed

subsection \<open>The mutex\<close>

lemma native_calls_locked_mid:
  "Lock \<notin> set mid \<Longrightarrow> Unlock \<notin> set mid \<Longrightarrow>
   native_calls_locked True (mid @ rest) = native_calls_locked True rest"
  by (induction True mid rule: native_calls_locked.induct) simp_all

lemma SetCallback_trace:
  "\<exists>mid. trace (SetCallback cb s) = trace s @ [Lock] @ mid @ [Unlock]
     \<and> Lock \<notin> set mid \<and> Unlock \<notin> set mid"
proof (cases cb)
  case None
  show ?thesis
  proof (cases "observer s")
    case None
    with \<open>cb = None\<close> show ?thesis by (simp add: SetCallback_null_without_observer)
  next
    case (Some a)
    with \<open>cb = None\<close> show ?thesis by (simp add: SetCallback_null_with_observer)
  qed
next
  case (Some c)
  show ?thesis
  proof (cases "observer s")
    case None
    with \<open>cb = Some c\<close> show ?thesis by (simp add: SetCallback_some_without_observer)
  next
    case a: (Some a)
    show ?thesis
    proof (cases "store s a")
      case None
      with a \<open>cb = Some c\<close> show ?thesis by (simp add: SetCallback_some_dangling)
    next
      case (Some ob)
      with a \<open>cb = Some c\<close> show ?thesis by (simp add: SetCallback_some_with_observer)
    qed
  qed
qed

lemma observer_sinks_set:
  "set (observer_sinks (map fst ss)) = {a. FrameObserver a \<in> fst ` set ss}"
proof (induction ss)
  case Nil
  show ?case by simp
next
  case (Cons x ss)
  obtain p w where x: "x = (p, w)" by (cases x)
  from Cons show ?case
    by (cases p) (auto simp: x)
qed

section \<open>The claims about the video track source\<close>

subsection \<open>Attaching\<close>

text \<open>
  Claim C3. On a track source without observer, \<^verbatim>\<open>SetCallback\<close> with a non-null
  callback \<open>c\<close> constructs exactly one observer, registers it with the native source
  exactly once, with sink settings that ask for the rotation to be applied, and stores
  \<open>c\<close> in it. A second call with a non-null callback \<open>c2\<close> makes no call to
  \<^verbatim>\<open>AddOrUpdateSink\<close>: it changes the stored callback (and the trace) and nothing else.
\<close>

theorem SetCallback_attach_once:
  assumes "observer s = None"
  shows "events_since s (SetCallback (Some c) s) =
           [Lock, NewObserver (next_addr s),
            AddOrUpdateSinkCall (next_addr s) \<lparr>rotation_applied = True\<rparr>,
            ObserverSetCallback (next_addr s) (Some c), Unlock]
       \<and> length (filter is_NewObserver (events_since s (SetCallback (Some c) s))) = 1
       \<and> length (filter is_AddOrUpdateSinkCall (events_since s (SetCallback (Some c) s))) = 1
       \<and> observer (SetCallback (Some c) s) = Some (next_addr s)
       \<and> store (SetCallback (Some c) s) (next_addr s) = Some \<lparr>callback = Some c\<rparr>
       \<and> sinks (SetCallback (Some c) s) =
           add_or_update (FrameObserver (next_addr s)) \<lparr>rotation_applied = True\<rparr> (sinks s)
       \<and> SetCallback (Some c2) (SetCallback (Some c) s) =
           (SetCallback (Some c) s)
             \<lparr>store := (store (SetCallback (Some c) s))(next_addr s \<mapsto> \<lparr>callback = Some c2\<rparr>),
              trace := trace (SetCallback (Some c) s) @
                [Lock, ObserverSetCallback (next_addr s) (Some c2), Unlock]\<rparr>
       \<and> filter is_AddOrUpdateSinkCall
           (events_since (SetCallback (Some c) s) (SetCallback (Some c2) (SetCallback (Some c) s))) = []"
proof -
  let ?s1 = "SetCallback (Some c) s"
  have s1: "?s1 = s\<lparr>observer := Some (next_addr s),
       sinks := add_or_update (FrameObserver (next_addr s)) \<lparr>rotation_applied = True\<rparr> (sinks s),
       store := (store s)(next_addr s \<mapsto> \<lparr>callback = Some c\<rparr>),
       next_addr := Suc (next_addr s),
       trace := trace s @
         [Lock, NewObserver (next_addr s),
          AddOrUpdateSinkCall (next_addr s) \<lparr>rotation_applied = True\<rparr>,
          ObserverSetCallback (next_addr s) (Some c), Unlock]\<rparr>"
    using assms by (rule SetCallback_some_without_observer)
  have o1: "observer ?s1 = Some (next_addr s)"
    and st1: "store ?s1 (next_addr s) = Some \<lparr>callback = Some c\<rparr>"
    by (simp_all add: s1)
  have s2: "SetCallback (Some c2) ?s1 =
      ?s1\<lparr>store := (store ?s1)(next_addr s \<mapsto> \<lparr>callback = Some c\<rparr>\<lparr>callback := Some c2\<rparr>),
         trace := trace ?s1 @ [Lock, ObserverSetCallback (next_addr s) (Some c2), Unlock]\<rparr>"
    using o1 st1 by (rule SetCallback_some_with_observer)
  have ev1: "events_since s ?s1 = [Lock, NewObserver (next_addr s),
            AddOrUpdateSinkCall (next_addr s) \<lparr>rotation_applied = True\<rparr>,
            ObserverSetCallback (next_addr s) (Some c), Unlock]"
    by (simp add: s1 events_since_def)
  have ev2: "events_since ?s1 (SetCallback (Some c2) ?s1) =
      [Lock, ObserverSetCallback (next_addr s) (Some c2), Unlock]"
    by (simp add: s2 events_since_def)
  show ?thesis
    unfolding ev1 ev2 using o1 st1 s2 by (simp add: s1)
qed

theorem SetCallback_attach_once_witness:
  "observer system_init = None
   \<and> events_since system_init (SetCallback (Some 7) system_init) =
       [Lock, NewObserver 0, AddOrUpdateSinkCall 0 \<lparr>rotation_applied = True\<rparr>,
        ObserverSetCallback 0 (Some 7), Unlock]
   \<and> store (SetCallback (Some 7) system_init) 0 = Some \<lparr>callback = Some 7\<rparr>
   \<and> filter is_AddOrUpdateSinkCall
         (events_since (SetCallback (Some 7) system_init)
            (SetCallback (Some 8) (SetCallback (Some 7) system_init))) = []"
proof -
  have h: "observer system_init = None"
    by (simp add: system_init_def)
  have n: "next_addr system_init = 0"
    by (simp add: system_init_def)
  note t = SetCallback_attach_once [OF h, of 7 8, unfolded n]
  from t h show ?thesis
    by blast
qed

subsection \<open>Detaching\<close>

text \<open>
  Claim C4. \<^verbatim>\<open>SetCallback\<close> with the null callback on a track source whose observer
  is \<open>a\<close> calls \<^verbatim>\<open>RemoveSink\<close> for \<open>a\<close>, then destroys \<open>a\<close>, and leaves the track source
  without observer and the native source without that sink. On a track source without
  observer it changes nothing (the trace records that the mutex was taken and released).
  So the second of two such calls in a row never removes a sink or destroys anything.
\<close>

theorem SetCallback_null_detach:
  "(observer s = Some a \<longrightarrow>
      SetCallback None s =
        s\<lparr>observer := None,
          sinks := remove_sink (FrameObserver a) (sinks s),
          store := (store s)(a := None),
          trace := trace s @ [Lock, RemoveSinkCall a, DeleteObserver a, Unlock]\<rparr>
      \<and> FrameObserver a \<notin> fst ` set (sinks (SetCallback None s)))
   \<and> (observer s = None \<longrightarrow> SetCallback None s = s\<lparr>trace := trace s @ [Lock, Unlock]\<rparr>)
   \<and> SetCallback None (SetCallback None s) =
       (SetCallback None s)\<lparr>trace := trace (SetCallback None s) @ [Lock, Unlock]\<rparr>"
  using SetCallback_null_with_observer [of s a] SetCallback_null_without_observer [of s]
    SetCallback_null_without_observer [OF SetCallback_null_observer, of s]
  by (auto simp: remove_sink_absent)

theorem SetCallback_null_detach_witness:
  "observer (SetCallback (Some 7) system_init) = Some 0
   \<and> events_since (SetCallback (Some 7) system_init)
         (SetCallback None (SetCallback (Some 7) system_init)) =
       [Lock, RemoveSinkCall 0, DeleteObserver 0, Unlock]
   \<and> sinks (SetCallback None (SetCallback (Some 7) system_init)) = []
   \<and> observer system_init = None
   \<and> SetCallback None system_init = system_init\<lparr>trace := [Lock, Unlock]\<rparr>
   \<and> events_since (SetCallback None (SetCallback (Some 7) system_init))
         (SetCallback None (SetCallback None (SetCallback (Some 7) system_init))) =
       [Lock, Unlock]"
proof -
  let ?s = "SetCallback (Some 7) system_init"
  have h0: "observer system_init = None"
    by (simp add: system_init_def)
  have s: "?s = \<lparr>observer = Some 0, sinks = [(FrameObserver 0, \<lparr>rotation_applied = True\<rparr>)],
      store = [0 \<mapsto> \<lparr>callback = Some 7\<rparr>], next_addr = Suc 0,
      trace = [Lock, NewObserver 0, AddOrUpdateSinkCall 0 \<lparr>rotation_applied = True\<rparr>,
        ObserverSetCallback 0 (Some 7), Unlock]\<rparr>"
    by (simp add: SetCallback_some_without_observer [OF h0]) (simp add: system_init_def)
  have h1: "observer ?s = Some 0"
    by (simp add: s)
  have d0: "SetCallback None system_init = system_init\<lparr>trace := [Lock, Unlock]\<rparr>"
    using SetCallback_null_detach [of system_init 0] h0 by (simp add: system_init_def)
  have d1: "SetCallback None ?s =
      ?s\<lparr>observer := None, sinks := remove_sink (FrameObserver 0) (sinks ?s),
        store := (store ?s)(0 := None),
        trace := trace ?s @ [Lock, RemoveSinkCall 0, DeleteObserver 0, Unlock]\<rparr>"
    and d2: "SetCallback None (SetCallback None ?s) =
      (SetCallback None ?s)\<lparr>trace := trace (SetCallback None ?s) @ [Lock, Unlock]\<rparr>"
    using SetCallback_null_detach [of ?s 0] h1 by blast+
  have e2: "events_since (SetCallback None ?s) (SetCallback None (SetCallback None ?s)) =
      [Lock, Unlock]"
    unfolding d2 by (simp add: events_since_def)
  have e1: "events_since ?s (SetCallback None ?s) =
      [Lock, RemoveSinkCall 0, DeleteObserver 0, Unlock]"
    unfolding d1 by (simp add: events_since_def)
  have k1: "sinks (SetCallback None ?s) = []"
    unfolding d1 by (simp add: s remove_sink_def)
  show ?thesis
    using h0 h1 d0 e1 e2 k1 by simp
qed

subsection \<open>Destruction\<close>

text \<open>
  Claim C6. When a track source is destroyed while its observer \<open>a\<close> is attached, the
  destructor calls \<^verbatim>\<open>RemoveSink\<close> for \<open>a\<close> before \<open>a\<close> is destroyed; afterwards the native
  source does not hold \<open>a\<close>, so whatever frames are delivered later, none is handed to
  \<open>a\<close>, destroyed or not. When no observer is attached, destruction does nothing: no
  sink is removed.
\<close>

theorem destroy_removes_sink_first:
  "(observer s = Some a \<longrightarrow>
      events_since s (VideoTrackSource_destroy s) = [RemoveSinkCall a, DeleteObserver a]
      \<and> observer (VideoTrackSource_destroy s) = None
      \<and> store (VideoTrackSource_destroy s) a = None
      \<and> FrameObserver a \<notin> fst ` set (sinks (VideoTrackSource_destroy s))
      \<and> OnFrame a f \<notin> set (events_since (VideoTrackSource_destroy s)
            (deliver_frames fs (VideoTrackSource_destroy s)))
      \<and> FrameToDestroyedObserver a f \<notin> set (events_since (VideoTrackSource_destroy s)
            (deliver_frames fs (VideoTrackSource_destroy s))))
   \<and> (observer s = None \<longrightarrow> VideoTrackSource_destroy s = s)"
proof (intro conjI impI)
  assume a: "observer s = Some a"
  let ?d = "VideoTrackSource_destroy s"
  show "events_since s ?d = [RemoveSinkCall a, DeleteObserver a]"
    by (simp add: destroy_attached [OF a] events_since_def)
  show "observer ?d = None" "store ?d a = None"
    by (simp_all add: destroy_attached [OF a])
  show gone: "FrameObserver a \<notin> fst ` set (sinks ?d)"
    by (simp add: destroy_attached [OF a] remove_sink_absent)
  show "OnFrame a f \<notin> set (events_since ?d (deliver_frames fs ?d))"
    "FrameToDestroyedObserver a f \<notin> set (events_since ?d (deliver_frames fs ?d))"
    using deliver_frames_absent [OF gone] by blast+
next
  assume "observer s = None"
  then show "VideoTrackSource_destroy s = s"
    by (rule destroy_detached)
qed

theorem destroy_removes_sink_first_witness:
  "observer (SetCallback (Some 7) system_init) = Some 0
   \<and> events_since (SetCallback (Some 7) system_init)
         (VideoTrackSource_destroy (SetCallback (Some 7) system_init)) =
       [RemoveSinkCall 0, DeleteObserver 0]
   \<and> FrameToDestroyedObserver 0 5 \<notin>
       set (events_since (VideoTrackSource_destroy (SetCallback (Some 7) system_init))
         (deliver_frames [4, 5] (VideoTrackSource_destroy (SetCallback (Some 7) system_init))))
   \<and> observer system_init = None
   \<and> VideoTrackSource_destroy system_init = system_init"
proof -
  have h0: "observer system_init = None"
    by (simp add: system_init_def)
  have h1: "observer (SetCallback (Some 7) system_init) = Some 0"
    by (simp add: SetCallback_some_without_observer [OF h0]) (simp add: system_init_def)
  from destroy_removes_sink_first [of "SetCallback (Some 7) system_init" 0 5 "[4, 5]"]
    destroy_removes_sink_first [of system_init 0 5 "[]"] h0 h1
  show ?thesis
    by blast
qed

subsection \<open>Detaching while frames arrive\<close>

text \<open>
  Claim C1. Take a track source in a state that satisfies the invariant, a call
  \<^verbatim>\<open>SetCallback(null)\<close> on it, and any schedule in which the statements of that call are
  interleaved with frames delivered by the native engine (and with further calls that
  pass the null callback). Once the call has returned, no frame event happens any more,
  whatever is scheduled next, as long as no call with a non-null callback is made: no
  frame callback is invoked and no frame reaches an observer. On return the track
  source has no observer and the native source holds no observer as a sink:
  \<^verbatim>\<open>RemoveSink\<close> has been executed before the call returned.
\<close>

theorem detach_silences_frame_callbacks:
  assumes "observer_invariant s"
    and "list_all (\<lambda>a. \<not> is_registration a) (sched @ later)"
    and "fst (run sched (Entry None, s)) = Returned"
  shows "filter is_frame_event
           (events_since (snd (run sched (Entry None, s)))
              (snd (run (sched @ later) (Entry None, s)))) = []
       \<and> observer (snd (run sched (Entry None, s))) = None
       \<and> observer_sinks (map fst (sinks (snd (run sched (Entry None, s))))) = []"
proof -
  obtain p s1 where c1: "run sched (Entry None, s) = (p, s1)"
    by (cases "run sched (Entry None, s)")
  with assms(3) have p: "p = Returned" by simp
  from assms(1) have "detaching (Entry None, s)" by simp
  with assms(2) have "detaching (run sched (Entry None, s))"
    by (simp add: detaching_run)
  then have d: "detached (Returned, s1)"
    unfolding c1 p by simp
  with assms(2) obtain es where
    es: "trace (snd (run later (Returned, s1))) = trace s1 @ es" "filter is_frame_event es = []"
    using detached_run [of "(Returned, s1)" later] by auto
  from d have "set (observer_sinks (map fst (sinks s1))) = {}"
    by (simp add: observer_invariant_def)
  with d es show ?thesis
    by (simp add: run_append c1 p events_since_def)
qed

theorem detach_silences_frame_callbacks_witness:
  "observer_invariant (SetCallback (Some 7) system_init)
   \<and> list_all (\<lambda>a. \<not> is_registration a)
        ([NativeFrame 1, CallerStep, CallerStep, NativeFrame 2, CallerStep, NativeFrame 3,
          CallerStep, CallerStep] @ [NativeFrame 4, Call None, CallerStep, NativeFrame 5])
   \<and> fst (run [NativeFrame 1, CallerStep, CallerStep, NativeFrame 2, CallerStep, NativeFrame 3,
          CallerStep, CallerStep] (Entry None, SetCallback (Some 7) system_init)) = Returned
   \<and> filter is_frame_event
         (events_since
            (snd (run [NativeFrame 1, CallerStep, CallerStep, NativeFrame 2, CallerStep,
               NativeFrame 3, CallerStep, CallerStep] (Entry None, SetCallback (Some 7) system_init)))
            (snd (run ([NativeFrame 1, CallerStep, CallerStep, NativeFrame 2, CallerStep,
               NativeFrame 3, CallerStep, CallerStep] @ [NativeFrame 4, Call None, CallerStep, NativeFrame 5])
               (Entry None, SetCallback (Some 7) system_init)))) = []"
proof -
  let ?s = "SetCallback (Some 7) system_init"
  let ?sched = "[NativeFrame 1, CallerStep, CallerStep, NativeFrame 2, CallerStep, NativeFrame 3,
          CallerStep, CallerStep]"
  let ?later = "[NativeFrame 4, Call None, CallerStep, NativeFrame 5]"
  have i: "observer_invariant ?s"
    by (rule observer_invariant_SetCallback [OF observer_invariant_init])
  have n: "list_all (\<lambda>a. \<not> is_registration a) (?sched @ ?later)"
    by simp
  have o: "observer ?s = Some 0"
    by (simp add: SetCallback_some_without_observer system_init_def)
  have r: "fst (run ?sched (Entry None, ?s)) = Returned"
    by (simp add: run_def o RemoveSink_def observer_reset_def)
  from detach_silences_frame_callbacks [OF i n r] i n r show ?thesis
    by blast
qed

subsection \<open>The scope of the mutex\<close>

text \<open>
  Claim C2 says that the observer mutex is never held across the calls
  \<^verbatim>\<open>AddOrUpdateSink\<close> and \<^verbatim>\<open>RemoveSink\<close>. \<open>native_calls_unlocked\<close> is that statement on
  a trace. It fails on the first registration of a callback: the lock guard is the
  first statement of \<^verbatim>\<open>SetCallback\<close>, so \<^verbatim>\<open>AddOrUpdateSink\<close> runs with the mutex held.
\<close>

theorem SetCallback_lock_counterexample:
  "\<not> native_calls_unlocked False (events_since system_init (SetCallback (Some 1) system_init))"
  by (simp add: SetCallback_some_without_observer system_init_def events_since_def)

text \<open>
  Claim C2, amended. Every call of \<^verbatim>\<open>SetCallback\<close> takes the observer mutex first and
  releases it last, once each, and holds it for its whole body: every call of
  \<^verbatim>\<open>AddOrUpdateSink\<close> or \<^verbatim>\<open>RemoveSink\<close> that it makes happens while the mutex is held.
  Delivering a frame neither takes nor releases that mutex.
\<close>

theorem SetCallback_lock_scope:
  "(\<exists>mid. events_since s (SetCallback cb s) = [Lock] @ mid @ [Unlock]
      \<and> Lock \<notin> set mid \<and> Unlock \<notin> set mid)
   \<and> trace (SetCallback cb s) = trace s @ events_since s (SetCallback cb s)
   \<and> native_calls_locked False (events_since s (SetCallback cb s))
   \<and> Lock \<notin> set (events_since s (deliver_frame f s))
   \<and> Unlock \<notin> set (events_since s (deliver_frame f s))"
proof -
  obtain mid where t: "trace (SetCallback cb s) = trace s @ [Lock] @ mid @ [Unlock]"
    and m: "Lock \<notin> set mid" "Unlock \<notin> set mid"
    using SetCallback_trace by blast
  have e: "events_since s (SetCallback cb s) = [Lock] @ mid @ [Unlock]"
    by (simp add: events_since_def t)
  have l: "native_calls_locked False ([Lock] @ mid @ [Unlock])"
    using native_calls_locked_mid [OF m, of "[Unlock]"] by simp
  have d: "events_since s (deliver_frame f s) = frame_events s f"
    by (simp add: deliver_frame_def)
  have "Lock \<notin> set (frame_events s f) \<and> Unlock \<notin> set (frame_events s f)"
    using sink_events_no_lock by (simp add: frame_events_def)
  with e t m l d show ?thesis
    by simp
qed

subsection \<open>One observer, registered while it exists\<close>

text \<open>
  Claim C5. The invariant: the observer objects that exist are exactly the one the
  track source owns (so there is at most one), and the observers registered as sinks of
  the native source are exactly that one too (so an observer exists if and only if it
  is registered). It holds after construction and is preserved by \<^verbatim>\<open>SetCallback\<close> with
  any argument and by destruction.
\<close>

theorem observer_invariant_preserved:
  assumes "observer_invariant s"
  shows "observer_invariant (SetCallback cb s)
       \<and> observer_invariant (VideoTrackSource_destroy s)
       \<and> card (dom (store s)) \<le> 1
       \<and> (store s a \<noteq> None) = (observer s = Some a)
       \<and> (FrameObserver a \<in> fst ` set (sinks s)) = (store s a \<noteq> None)"
proof -
  from assms have d: "dom (store s) = set_option (observer s)"
    and k: "{a. FrameObserver a \<in> fst ` set (sinks s)} = set_option (observer s)"
    by (simp_all add: observer_invariant_def observer_sinks_set)
  from d have 1: "(store s a \<noteq> None) = (observer s = Some a)"
    by (auto simp: dom_def set_eq_iff)
  from k have 2: "(FrameObserver a \<in> fst ` set (sinks s)) = (observer s = Some a)"
    by (auto simp: set_eq_iff)
  from assms have 3: "card (dom (store s)) \<le> 1"
    by (rule observer_invariant_at_most_one)
  from assms 1 2 3 show ?thesis
    by (simp add: observer_invariant_SetCallback observer_invariant_destroy del: One_nat_def)
qed

theorem observer_invariant_preserved_witness:
  "observer_invariant system_init
   \<and> observer_invariant (SetCallback (Some 7) system_init)
   \<and> observer_invariant (SetCallback None (SetCallback (Some 7) system_init))
   \<and> observer_invariant (VideoTrackSource_destroy (SetCallback (Some 7) system_init))
   \<and> card (dom (store (SetCallback (Some 7) system_init))) \<le> 1"
proof -
  have 0: "observer_invariant system_init"
    by (simp add: observer_invariant_def system_init_def)
  note 1 = observer_invariant_preserved [OF 0, of "Some 7" 0]
  then have 2: "observer_invariant (SetCallback (Some 7) system_init)"
    by blast
  note 3 = observer_invariant_preserved [OF 2, of None 0]
  from 0 1 3 show ?thesis
    by blast
qed

section \<open>The claims about the video source adapter\<close>

text \<open>
  Claim C10. \<^verbatim>\<open>UnregisterObserver(o)\<close> expects \<open>o\<close> to be the registered observer: the
  check passes whenever the last thing done was \<^verbatim>\<open>RegisterObserver(o)\<close>, whatever was
  registered before, and in a build with the checks on it fails exactly when the
  registered observer differs from \<open>o\<close>. When \<^verbatim>\<open>UnregisterObserver\<close> returns, no observer is
  registered. \<^verbatim>\<open>RegisterObserver(o)\<close> never fails and replaces whatever was registered.
\<close>

theorem UnregisterObserver_precondition:
  "UnregisterObserver d obs (RegisterObserver obs a) =
     Inr ((RegisterObserver obs a)\<lparr>adapter_observer := None\<rparr>)
   \<and> (UnregisterObserver d obs a = Inr a' \<longrightarrow> adapter_observer a' = None)
   \<and> (UnregisterObserver True obs a = Inl DCheckFailed) = (adapter_observer a \<noteq> obs)
   \<and> (UnregisterObserver d obs a = Inl DCheckFailed \<longrightarrow> d \<and> adapter_observer a \<noteq> obs)
   \<and> adapter_observer (RegisterObserver obs a) = obs
   \<and> RegisterObserver obs (RegisterObserver obs' a) = RegisterObserver obs a"
  by (auto simp: UnregisterObserver_def RegisterObserver_def split: if_splits)

theorem UnregisterObserver_precondition_witness:
  "UnregisterObserver True (Some 3) (RegisterObserver (Some 3) \<lparr>adapter_observer = Some 2\<rparr>) =
     Inr ((RegisterObserver (Some 3) \<lparr>adapter_observer = Some 2\<rparr>)\<lparr>adapter_observer := None\<rparr>)
   \<and> UnregisterObserver False (Some 4) \<lparr>adapter_observer = Some 3\<rparr> = Inr \<lparr>adapter_observer = None\<rparr>
   \<and> adapter_observer \<lparr>adapter_observer = None\<rparr> = None
   \<and> UnregisterObserver True (Some 4) \<lparr>adapter_observer = Some 3\<rparr> = Inl DCheckFailed
   \<and> adapter_observer \<lparr>adapter_observer = Some 3\<rparr> \<noteq> Some 4"
proof -
  have u: "UnregisterObserver False (Some 4) \<lparr>adapter_observer = Some 3\<rparr> = Inr \<lparr>adapter_observer = None\<rparr>"
    by (simp add: UnregisterObserver_def)
  have f: "UnregisterObserver True (Some 4) \<lparr>adapter_observer = Some 3\<rparr> = Inl DCheckFailed"
    by (simp add: UnregisterObserver_def)
  from UnregisterObserver_precondition
      [of True "Some 3" "\<lparr>adapter_observer = Some 2\<rparr>" "\<lparr>adapter_observer = None\<rparr>" "None"]
    UnregisterObserver_precondition
      [of False "Some 4" "\<lparr>adapter_observer = Some 3\<rparr>" "\<lparr>adapter_observer = None\<rparr>" "None"]
    UnregisterObserver_precondition
      [of True "Some 4" "\<lparr>adapter_observer = Some 3\<rparr>" "\<lparr>adapter_observer = None\<rparr>" "None"]
    u f
  show ?thesis
    by blast
qed

section \<open>Lemmas about the data channel interop\<close>

lemma api_run_Cons: "api_run (call # calls) c = api_run calls (api_step call c)"
  by (simp add: api_run_def)

lemma api_step_user_data:
  assumes "reg h = Some c"
  shows "\<exists>c'. fst (api_step call (reg, invs)) h = Some c' \<and>
     user_data c' = (case last_user_data h [call] of Some v \<Rightarrow> v | None \<Rightarrow> user_data c)"
proof (cases call)
  case (SetUserData k v)
  with assms show ?thesis
    by (cases "reg k") (auto simp: mrsDataChannelSetUserData_def)
next
  case (RegisterCallbacks k cbs)
  with assms show ?thesis
    by (cases "reg k") (auto simp: mrsDataChannelRegisterCallbacks_def)
next
  case (SendMessage k d n)
  with assms show ?thesis
    by (cases "reg k") (auto simp: mrsDataChannelSendMessage_def)
next
  case (NativeEvent k ev)
  with assms show ?thesis
    by (cases "reg k") auto
qed

lemma api_run_user_data:
  assumes "reg h = Some c"
  shows "\<exists>c'. fst (api_run calls (reg, invs)) h = Some c' \<and>
     user_data c' = (case last_user_data h calls of Some v \<Rightarrow> v | None \<Rightarrow> user_data c)"
  using assms
proof (induction calls arbitrary: reg c invs)
  case Nil
  then show ?case by (simp add: api_run_def)
next
  case (Cons call calls)
  obtain reg1 invs1 where s: "api_step call (reg, invs) = (reg1, invs1)"
    by (cases "api_step call (reg, invs)")
  from api_step_user_data [of reg h c call invs] Cons.prems s obtain c1 where
    c1: "reg1 h = Some c1"
    "user_data c1 = (case last_user_data h [call] of Some v \<Rightarrow> v | None \<Rightarrow> user_data c)"
    by auto
  from Cons.IH [of reg1 c1 invs1] c1(1) obtain c' where
    c': "fst (api_run calls (reg1, invs1)) h = Some c'"
    "user_data c' = (case last_user_data h calls of Some v \<Rightarrow> v | None \<Rightarrow> user_data c1)"
    by blast
  have "user_data c' =
      (case last_user_data h (call # calls) of Some v \<Rightarrow> v | None \<Rightarrow> user_data c)"
    using c1(2) c'(2) by (cases call) (auto split: option.splits)
  with c'(1) show ?case
    by (simp add: api_run_Cons s)
qed

lemma api_step_silent:
  assumes "reg h = Some c" and "silent (callbacks c)" and "\<not> enables h call"
  shows "\<exists>c'. fst (api_step call (reg, invs)) h = Some c' \<and> silent (callbacks c')
           \<and> filter (\<lambda>x. fst x = h) (snd (api_step call (reg, invs))) = filter (\<lambda>x. fst x = h) invs"
proof (cases call)
  case (SetUserData k v)
  with assms show ?thesis
    by (cases "reg k") (auto simp: mrsDataChannelSetUserData_def)
next
  case (RegisterCallbacks k cbs)
  with assms show ?thesis
    by (cases "reg k") (auto simp: mrsDataChannelRegisterCallbacks_def)
next
  case (SendMessage k d n)
  with assms show ?thesis
    by (cases "reg k") (auto simp: mrsDataChannelSendMessage_def)
next
  case (NativeEvent k ev)
  show ?thesis
  proof (cases "k = h")
    case True
    from assms(2) have "dispatch (callbacks c) ev = []"
      by (cases ev) (simp_all add: silent_def)
    with assms True NativeEvent show ?thesis by simp
  next
    case False
    with assms NativeEvent show ?thesis
      by (cases "reg k") (auto simp: filter_empty_conv)
  qed
qed

lemma api_run_silent:
  assumes "reg h = Some c" and "silent (callbacks c)" and "list_all (\<lambda>x. \<not> enables h x) calls"
  shows "filter (\<lambda>x. fst x = h) (snd (api_run calls (reg, invs))) = filter (\<lambda>x. fst x = h) invs"
  using assms
proof (induction calls arbitrary: reg c invs)
  case Nil
  show ?case by (simp add: api_run_def)
next
  case (Cons call calls)
  obtain reg1 invs1 where s: "api_step call (reg, invs) = (reg1, invs1)"
    by (cases "api_step call (reg, invs)")
  from Cons.prems have ne: "\<not> enables h call" and rest: "list_all (\<lambda>x. \<not> enables h x) calls"
    by simp_all
  from api_step_silent [of reg h c call invs] Cons.prems(1,2) ne s obtain c1 where
    c1: "reg1 h = Some c1" "silent (callbacks c1)"
    and f: "filter (\<lambda>x. fst x = h) invs1 = filter (\<lambda>x. fst x = h) invs"
    by auto
  from Cons.IH [of reg1 c1 invs1] c1 rest f show ?case
    by (simp add: api_run_Cons s)
qed

section \<open>The claims about the data channel interop\<close>

text \<open>
  Claim C7. \<^verbatim>\<open>mrsDataChannelSendMessage\<close> returns the invalid-argument code when the size
  is zero, or when the data pointer is null while the size is positive, for every
  handle; then nothing changes: no channel is modified and nothing is forwarded to a
  native channel. With valid arguments, on a channel that is not in a sendable state, it
  returns the not-open code (and changes nothing either).
\<close>

theorem SendMessage_argument_and_state_errors:
  "(sz = 0 \<or> (data = nullptr \<and> 0 < sz) \<longrightarrow>
      mrsDataChannelSendMessage h data sz reg = (InvalidArgument, reg))
   \<and> (sz \<noteq> 0 \<and> data \<noteq> nullptr \<and> reg h = Some c \<and> \<not> sendable c \<longrightarrow>
      mrsDataChannelSendMessage h data sz reg = (NotOpen, reg))"
  by (simp add: mrsDataChannelSendMessage_def)

theorem SendMessage_argument_and_state_errors_witness:
  "mrsDataChannelSendMessage 1 nullptr 5 [1 \<mapsto> DataChannel_new 100] =
     (InvalidArgument, [1 \<mapsto> DataChannel_new 100])
   \<and> mrsDataChannelSendMessage 1 9 0 [1 \<mapsto> DataChannel_new 100] =
     (InvalidArgument, [1 \<mapsto> DataChannel_new 100])
   \<and> mrsDataChannelSendMessage 1 9 5 [1 \<mapsto> (DataChannel_new 100)\<lparr>sendable := False\<rparr>] =
     (NotOpen, [1 \<mapsto> (DataChannel_new 100)\<lparr>sendable := False\<rparr>])"
proof -
  have a: "(5::64 word) = 0 \<or> (nullptr = nullptr \<and> 0 < (5::64 word))"
    by simp
  have b: "(0::64 word) = 0 \<or> ((9::nat) = nullptr \<and> 0 < (0::64 word))"
    by simp
  have c: "(5::64 word) \<noteq> 0 \<and> (9::nat) \<noteq> nullptr
      \<and> [1 \<mapsto> (DataChannel_new 100)\<lparr>sendable := False\<rparr>] (1::nat) =
          Some ((DataChannel_new 100)\<lparr>sendable := False\<rparr>)
      \<and> \<not> sendable ((DataChannel_new 100)\<lparr>sendable := False\<rparr>)"
    by (simp add: nullptr_def)
  from SendMessage_argument_and_state_errors [of 5 nullptr 1 "[1 \<mapsto> DataChannel_new 100]" "DataChannel_new 100"]
    SendMessage_argument_and_state_errors [of 0 9 1 "[1 \<mapsto> DataChannel_new 100]" "DataChannel_new 100"]
    SendMessage_argument_and_state_errors
      [of 5 9 1 "[1 \<mapsto> (DataChannel_new 100)\<lparr>sendable := False\<rparr>]"
          "(DataChannel_new 100)\<lparr>sendable := False\<rparr>"]
    a b c
  show ?thesis
    by blast
qed

text \<open>
  Claim C8. For a handle \<open>h\<close> of a data channel and any history of calls and events,
  \<^verbatim>\<open>mrsDataChannelGetUserData(h)\<close> returns the value passed to the most recent
  \<^verbatim>\<open>mrsDataChannelSetUserData(h, v)\<close> of the history, and what the channel held before the
  history if there is none; a new channel holds \<^verbatim>\<open>nullptr\<close>. \<^verbatim>\<open>SetUserData\<close> changes the
  slot of that channel to exactly the value given, whatever it held before, and
  nothing else.
\<close>

theorem GetUserData_last_set:
  assumes "reg h = Some c"
  shows "mrsDataChannelGetUserData h (fst (api_run calls (reg, invs))) =
           (case last_user_data h calls of Some v \<Rightarrow> v | None \<Rightarrow> user_data c)
       \<and> mrsDataChannelSetUserData h v reg = reg(h \<mapsto> c\<lparr>user_data := v\<rparr>)
       \<and> mrsDataChannelGetUserData h (mrsDataChannelSetUserData h v reg) = v
       \<and> mrsDataChannelGetUserData h (mrsDataChannelSetUserData h v (mrsDataChannelSetUserData h w reg)) = v
       \<and> user_data (DataChannel_new lim) = nullptr"
proof -
  from api_run_user_data [of reg h c calls invs] assms
  have "mrsDataChannelGetUserData h (fst (api_run calls (reg, invs))) =
           (case last_user_data h calls of Some v \<Rightarrow> v | None \<Rightarrow> user_data c)"
    by (auto simp: mrsDataChannelGetUserData_def)
  with assms show ?thesis
    by (simp add: mrsDataChannelGetUserData_def mrsDataChannelSetUserData_def DataChannel_new_def)
qed

theorem GetUserData_last_set_witness:
  "[1 \<mapsto> DataChannel_new 100] (1::nat) = Some (DataChannel_new 100)
   \<and> mrsDataChannelGetUserData 1
       (fst (api_run [SetUserData 1 5, NativeEvent 1 (StateChanged 1 0), SetUserData 2 9, SetUserData 1 7]
          ([1 \<mapsto> DataChannel_new 100], []))) = 7
   \<and> mrsDataChannelGetUserData 1
       (fst (api_run [SendMessage 1 8 3] ([1 \<mapsto> DataChannel_new 100], []))) = nullptr"
proof -
  have h: "[1 \<mapsto> DataChannel_new 100] (1::nat) = Some (DataChannel_new 100)"
    by simp
  have l1: "last_user_data 1 [SetUserData 1 5, NativeEvent 1 (StateChanged 1 0), SetUserData 2 9, SetUserData 1 7] = Some 7"
    by simp
  have l2: "last_user_data 1 [SendMessage 1 8 3] = None"
    by simp
  from GetUserData_last_set
      [where reg = "[1 \<mapsto> DataChannel_new 100]" and h = 1 and c = "DataChannel_new 100"
         and calls = "[SetUserData 1 5, NativeEvent 1 (StateChanged 1 0), SetUserData 2 9, SetUserData 1 7]"
         and invs = "[]", OF h]
    GetUserData_last_set
      [where reg = "[1 \<mapsto> DataChannel_new 100]" and h = 1 and c = "DataChannel_new 100"
         and calls = "[SendMessage 1 8 3]" and invs = "[]", OF h]
  show ?thesis
    using h unfolding l1 l2 by (simp add: DataChannel_new_def)
qed

text \<open>
  Claim C9. One call of \<^verbatim>\<open>mrsDataChannelRegisterCallbacks(h, cbs)\<close> replaces the whole
  stored callback set of the channel, that is all three (callback, context) pairs, by
  \<open>cbs\<close>, and changes nothing else. After a registration whose three function pointers
  are null, whatever calls and native events follow, no callback is invoked for that
  channel as long as no registration with a non-null function pointer is made for it.
\<close>

theorem RegisterCallbacks_replaces_and_silences:
  assumes "reg h = Some c"
  shows "mrsDataChannelRegisterCallbacks h cbs reg = reg(h \<mapsto> c\<lparr>callbacks := cbs\<rparr>)
       \<and> (silent cbs \<and> list_all (\<lambda>x. \<not> enables h x) calls \<longrightarrow>
            filter (\<lambda>x. fst x = h)
              (snd (api_run calls (mrsDataChannelRegisterCallbacks h cbs reg, invs))) =
            filter (\<lambda>x. fst x = h) invs)"
proof -
  have r: "mrsDataChannelRegisterCallbacks h cbs reg = reg(h \<mapsto> c\<lparr>callbacks := cbs\<rparr>)"
    using assms by (simp add: mrsDataChannelRegisterCallbacks_def)
  have "filter (\<lambda>x. fst x = h) (snd (api_run calls (reg(h \<mapsto> c\<lparr>callbacks := cbs\<rparr>), invs))) =
        filter (\<lambda>x. fst x = h) invs"
    if "silent cbs" "list_all (\<lambda>x. \<not> enables h x) calls"
    using api_run_silent [of "reg(h \<mapsto> c\<lparr>callbacks := cbs\<rparr>)" h "c\<lparr>callbacks := cbs\<rparr>" calls invs] that
    by simp
  with r show ?thesis
    by simp
qed

theorem RegisterCallbacks_replaces_and_silences_witness:
  "[1 \<mapsto> (DataChannel_new 100)\<lparr>callbacks := mrsDataChannelCallbacks_init\<lparr>message_callback := 11\<rparr>\<rparr>] (1::nat) =
     Some ((DataChannel_new 100)\<lparr>callbacks := mrsDataChannelCallbacks_init\<lparr>message_callback := 11\<rparr>\<rparr>)
   \<and> silent mrsDataChannelCallbacks_init
   \<and> list_all (\<lambda>x. \<not> enables 1 x)
        [NativeEvent 1 (MessageReceived 4 2), SendMessage 1 8 3, NativeEvent 1 (StateChanged 1 0)]
   \<and> filter (\<lambda>x. fst x = 1)
       (snd (api_run [NativeEvent 1 (MessageReceived 4 2), SendMessage 1 8 3, NativeEvent 1 (StateChanged 1 0)]
          (mrsDataChannelRegisterCallbacks 1 mrsDataChannelCallbacks_init
             [1 \<mapsto> (DataChannel_new 100)\<lparr>callbacks := mrsDataChannelCallbacks_init\<lparr>message_callback := 11\<rparr>\<rparr>],
           []))) = []"
proof -
  let ?c = "(DataChannel_new 100)\<lparr>callbacks := mrsDataChannelCallbacks_init\<lparr>message_callback := 11\<rparr>\<rparr>"
  let ?calls = "[NativeEvent 1 (MessageReceived 4 2), SendMessage 1 8 3, NativeEvent 1 (StateChanged 1 0)]"
  have h: "[1 \<mapsto> ?c] (1::nat) = Some ?c"
    by simp
  have s: "silent mrsDataChannelCallbacks_init"
    by (simp add: silent_def mrsDataChannelCallbacks_init_def)
  have n: "list_all (\<lambda>x. \<not> enables 1 x) ?calls"
    by simp
  have e: "filter (\<lambda>x. fst x = (1::nat)) ([] :: (nat \<times> invocation) list) = []"
    by simp
  from RegisterCallbacks_replaces_and_silences
      [where reg = "[1 \<mapsto> ?c]" and h = 1 and c = ?c and cbs = mrsDataChannelCallbacks_init
         and calls = ?calls and invs = "[]", OF h] h s n
  show ?thesis
    unfolding e by blast
qed

end
